theory Spec2Isabelle
  imports Main "HOL-Library.Word" "HOL-Library.Signed_Division"
begin

section \<open>Extent resolution for FFT plans: \<open>KokkosFFT::Impl::get_extents\<close>\<close>

text \<open>
  The development embeds \<open>get_extents\<close> of \<open>common/src/KokkosFFT_layouts.hpp\<close>.
  The function reads the extents of an input and an output view through the axis map
  computed by \<open>get_map_axes\<close>, checks the real/complex pairing, brings the extent
  vectors into row-major order and returns the extents of the transformed axes together
  with the batch count \<open>howmany\<close>.

  The template parameters become arguments: the rank, the layout and the element type are
  fields of a view, \<open>DIM\<close> is a number. The axis map is an argument too, since
  \<open>get_map_axes\<close> lives in another file. Every way in which the function does not
  return its tuple is a value of the type \<open>error\<close>: a failed \<open>static_assert\<close> (the
  call does not compile), an exception, a failed \<open>assert\<close>, and a division that traps.
  The macro \<open>NDEBUG\<close> of the build is an argument as well: when it is defined, an
  \<open>assert\<close> expands to nothing and its condition is not evaluated.
\<close>

subsection \<open>Machine integers\<close>

text \<open>
  A view reports its extents as \<open>std::size_t\<close> (64 bits, unsigned); the function stores
  them in \<open>std::vector<int>\<close> and multiplies them as \<open>int\<close> (32 bits, signed). The
  conversion \<open>std::size_t \<rightarrow> int\<close> of \<open>push_back\<close> keeps the low 32 bits.
  Multiplication of \<open>int\<close> is taken as two's complement wrap-around, which is what the
  compiled code computes (the language standard leaves signed overflow undefined).
  Division of \<open>int\<close> truncates towards zero; it traps for the divisor 0 and for
  \<open>INT_MIN / -1\<close>, whose quotient is not an \<open>int\<close>.
\<close>

type_synonym size_t = "64 word"
type_synonym cint = "32 word"

definition to_int :: "size_t \<Rightarrow> cint" where
  "to_int n = ucast n"

subsection \<open>Views\<close>

datatype array_layout_type = LayoutLeft | LayoutRight

text \<open>
  The element type of a view matters only through the two traits the function asks:
  \<open>std::is_floating_point\<close> and \<open>is_complex\<close>. No type has both, and a type such as
  \<open>int\<close> has neither.
\<close>

datatype value_type = Floating_point | Complex | Integral

fun is_floating_point :: "value_type \<Rightarrow> bool" where
  "is_floating_point Floating_point = True"
| "is_floating_point Complex = False"
| "is_floating_point Integral = False"

text \<open>
  Modelled from the spec: the trait \<open>is_complex\<close>, which is declared in
  \<open>KokkosFFT_utils.hpp\<close> and not in the file above. The spec gives it as the predicate
  that tells a complex-valued scalar type from the others.
\<close>

fun is_complex :: "value_type \<Rightarrow> bool" where
  "is_complex Complex = True"
| "is_complex Floating_point = False"
| "is_complex Integral = False"

record view =
  rank :: nat
  extent :: "nat \<Rightarrow> size_t"
  array_layout :: array_layout_type
  non_const_value_type :: value_type

subsection \<open>Errors\<close>

text \<open>
  \<open>Static_assert_failed\<close>: the instantiation is rejected at compile time.
  \<open>Out_of_range\<close>: \<open>std::vector::at\<close> throws. \<open>Assertion_failed\<close>: an \<open>assert\<close>
  aborts. \<open>Runtime_error\<close>: the \<open>std::runtime_error\<close> thrown, with its message.
  \<open>Division_by_zero\<close> and \<open>Division_overflow\<close>: the \<open>int\<close> division traps, for the
  divisor 0 and for \<open>INT_MIN / -1\<close>.
\<close>

datatype error =
  Static_assert_failed
| Out_of_range
| Assertion_failed
| Runtime_error string
| Division_by_zero
| Division_overflow

text \<open>The quotient of an \<open>int\<close> division that does not trap.\<close>

definition int_quotient :: "cint \<Rightarrow> cint \<Rightarrow> cint" where
  "int_quotient a b = word_of_int (sint a sdiv sint b)"

text \<open>The operator \<open>/\<close> on \<open>int\<close>.\<close>

definition int_div :: "cint \<Rightarrow> cint \<Rightarrow> error + cint" where
  "int_div a b =
     (if b = 0 then Inl Division_by_zero
      else if a = - 2147483648 \<and> b = - 1 then Inl Division_overflow
      else Inr (int_quotient a b))"

subsection \<open>The function\<close>

definition at :: "'a list \<Rightarrow> nat \<Rightarrow> error + 'a" where
  "at xs i = (if i < length xs then Inr (xs ! i) else Inl Out_of_range)"

text \<open>The loop of lines 48 to 59, with the three vectors as accumulators.\<close>

function extents_loop ::
  "view \<Rightarrow> view \<Rightarrow> nat list \<Rightarrow> nat \<Rightarrow> nat \<Rightarrow> cint list \<times> cint list \<times> cint list
    \<Rightarrow> error + (cint list \<times> cint list \<times> cint list)" where
  "extents_loop vin vout amap rk i (ie, oe, fe) =
     (if i < rk then
        (case at amap i of
           Inl e \<Rightarrow> Inl e
         | Inr idx \<Rightarrow>
             extents_loop vin vout amap rk (Suc i)
               (ie @ [to_int (extent vin idx)],
                oe @ [to_int (extent vout idx)],
                fe @ [to_int (max (extent vin idx) (extent vout idx))]))
      else Inr (ie, oe, fe))"
  by pat_completeness auto
termination
  by (relation "measure (\<lambda>(vin, vout, amap, rk, i, acc). rk - i)") auto

definition inner_most_axis :: "view \<Rightarrow> nat" where
  "inner_most_axis vin = (if array_layout vin = LayoutLeft then 0 else rank vin - 1)"

text \<open>
  \<open>assert(lhs.at(ax) == rhs.at(ax) / 2 + 1)\<close>, the assertion of lines 64 and 75. With
  \<open>NDEBUG\<close> nothing is evaluated.
\<close>

definition assert_halved :: "bool \<Rightarrow> cint list \<Rightarrow> cint list \<Rightarrow> nat \<Rightarrow> error + unit" where
  "assert_halved NDEBUG lhs rhs ax =
     (if NDEBUG then Inr ()
      else
        (case at lhs ax of
           Inl e \<Rightarrow> Inl e
         | Inr l \<Rightarrow>
             (case at rhs ax of
                Inl e \<Rightarrow> Inl e
              | Inr r \<Rightarrow>
                  (case int_div r 2 of
                     Inl e \<Rightarrow> Inl e
                   | Inr half \<Rightarrow> if l = half + 1 then Inr () else Inl Assertion_failed))))"

text \<open>Lines 61 to 70: a real input.\<close>

definition check_real_input ::
  "bool \<Rightarrow> value_type \<Rightarrow> value_type \<Rightarrow> nat \<Rightarrow> cint list \<Rightarrow> cint list \<Rightarrow> error + unit"
  where
  "check_real_input NDEBUG in_value_type out_value_type ax ie oe =
     (if is_floating_point in_value_type then
        (if is_complex out_value_type then assert_halved NDEBUG oe ie ax
         else Inl (Runtime_error
                ''If the input type is real, the output type should be complex''))
      else Inr ())"

text \<open>Lines 72 to 81: a real output.\<close>

definition check_real_output ::
  "bool \<Rightarrow> value_type \<Rightarrow> value_type \<Rightarrow> nat \<Rightarrow> cint list \<Rightarrow> cint list \<Rightarrow> error + unit"
  where
  "check_real_output NDEBUG in_value_type out_value_type ax ie oe =
     (if is_floating_point out_value_type then
        (if is_complex in_value_type then assert_halved NDEBUG ie oe ax
         else Inl (Runtime_error
                ''If the output type is real, the input type should be complex''))
      else Inr ())"

text \<open>Lines 83 to 87: \<open>std::reverse\<close> for a column-major view.\<close>

definition to_layout_right :: "array_layout_type \<Rightarrow> 'a list \<Rightarrow> 'a list" where
  "to_layout_right l xs = (if l = LayoutLeft then rev xs else xs)"

text \<open>Lines 91 to 93: the vector built from the iterator range \<open>[end - DIM, end)\<close>.\<close>

definition subvector :: "'a list \<Rightarrow> nat \<Rightarrow> 'a list" where
  "subvector xs DIM = drop (length xs - DIM) xs"

text \<open>\<open>std::accumulate(first, last, 1, std::multiplies<>())\<close> on \<open>int\<close>.\<close>

definition accumulate :: "cint list \<Rightarrow> cint" where
  "accumulate xs = foldl (\<lambda>acc x. acc * x) 1 xs"

text \<open>
  \<open>get_extents\<close>. \<open>NDEBUG\<close> tells whether the macro is defined in the build. The axis
  map \<open>amap\<close> is the first component of what \<open>get_map_axes\<close> returns; \<open>DIM\<close> is the
  number of transformed axes. The result is
  \<open>(in_extents, out_extents, fft_extents, howmany)\<close>.
\<close>

definition get_extents ::
  "bool \<Rightarrow> view \<Rightarrow> view \<Rightarrow> nat list \<Rightarrow> nat
    \<Rightarrow> error + (cint list \<times> cint list \<times> cint list \<times> cint)" where
  "get_extents NDEBUG vin vout amap DIM =
     (if rank vin \<ge> DIM \<and> DIM > 0 then
        (case extents_loop vin vout amap (rank vin) 0 ([], [], []) of
           Inl e \<Rightarrow> Inl e
         | Inr (ie, oe, fe) \<Rightarrow>
             (case check_real_input NDEBUG (non_const_value_type vin)
                     (non_const_value_type vout) (inner_most_axis vin) ie oe of
                Inl e \<Rightarrow> Inl e
              | Inr _ \<Rightarrow>
                  (case check_real_output NDEBUG (non_const_value_type vin)
                          (non_const_value_type vout) (inner_most_axis vin) ie oe of
                     Inl e \<Rightarrow> Inl e
                   | Inr _ \<Rightarrow>
                       (let ie' = to_layout_right (array_layout vin) ie;
                            oe' = to_layout_right (array_layout vin) oe;
                            fe' = to_layout_right (array_layout vin) fe;
                            in_extents = subvector ie' DIM;
                            out_extents = subvector oe' DIM;
                            fft_extents = subvector fe' DIM;
                            total_fft_size = accumulate fe';
                            fft_size = accumulate fft_extents
                        in case int_div total_fft_size fft_size of
                             Inl e \<Rightarrow> Inl e
                           | Inr howmany \<Rightarrow>
                               Inr (in_extents, out_extents, fft_extents, howmany)))))
      else Inl Static_assert_failed)"

text \<open>
  Modelled from the spec: the axis map of \<open>get_map_axes\<close>, whose source is not part of
  the file above. The spec describes its forward permutation for the row-major canonical
  order: the axes that are not transformed keep their order, and the chosen axes follow in
  the trailing positions, in the order of the axis list. It is used for the end-to-end
  example only; everywhere else the axis map is an arbitrary argument.
\<close>

definition get_map_axes :: "nat \<Rightarrow> nat list \<Rightarrow> nat list" where
  "get_map_axes rk axes = filter (\<lambda>i. i \<notin> set axes) [0..<rk] @ axes"

subsection \<open>Views of a given shape\<close>

text \<open>
  A view with the extents \<open>shape\<close>, used for the concrete calls below. Beyond the rank
  the extent is fixed to 1; an axis map over the axes of the view never reads it.
\<close>

definition View :: "size_t list \<Rightarrow> array_layout_type \<Rightarrow> value_type \<Rightarrow> view" where
  "View shape l t =
     \<lparr>rank = length shape, extent = (\<lambda>r. if r < length shape then shape ! r else 1),
      array_layout = l, non_const_value_type = t\<rparr>"

subsection \<open>The row-major equivalent of a column-major view\<close>

text \<open>
  These two definitions follow the words of the specification, not the source: a
  column-major view of shape \<open>(e\<^sub>0, \<dots>, e\<^sub>r\<^sub>-\<^sub>1)\<close> is the row-major view of the
  reversed shape, with axis \<open>a\<close> renamed to \<open>r - 1 - a\<close>; the axis map is renamed and
  reversed with it.
\<close>

definition row_major_equivalent :: "view \<Rightarrow> view" where
  "row_major_equivalent v =
     v\<lparr>extent := (\<lambda>r. extent v (rank v - 1 - r)), array_layout := LayoutRight\<rparr>"

definition reversed_axes :: "nat \<Rightarrow> nat list \<Rightarrow> nat list" where
  "reversed_axes rk amap = rev (map (\<lambda>a. rk - 1 - a) amap)"

subsection \<open>The loop in closed form\<close>

declare extents_loop.simps [simp del]

lemma extents_loop_run:
  "i \<le> rk \<Longrightarrow> rk \<le> length amap \<Longrightarrow>
   extents_loop vin vout amap rk i (ie, oe, fe) =
     Inr (ie @ map (\<lambda>idx. to_int (extent vin idx)) (drop i (take rk amap)),
          oe @ map (\<lambda>idx. to_int (extent vout idx)) (drop i (take rk amap)),
          fe @ map (\<lambda>idx. to_int (max (extent vin idx) (extent vout idx)))
                 (drop i (take rk amap)))"
proof (induction "rk - i" arbitrary: i ie oe fe)
  case 0
  then show ?case by (simp add: extents_loop.simps)
next
  case (Suc n)
  then have lt: "i < rk" and len: "i < length (take rk amap)" by simp_all
  have nth: "take rk amap ! i = amap ! i" using lt by simp
  have step: "drop i (take rk amap) = amap ! i # drop (Suc i) (take rk amap)"
    using Cons_nth_drop_Suc [OF len] nth by simp
  have ih: "extents_loop vin vout amap rk (Suc i) (ie', oe', fe') =
     Inr (ie' @ map (\<lambda>idx. to_int (extent vin idx)) (drop (Suc i) (take rk amap)),
          oe' @ map (\<lambda>idx. to_int (extent vout idx)) (drop (Suc i) (take rk amap)),
          fe' @ map (\<lambda>idx. to_int (max (extent vin idx) (extent vout idx)))
                 (drop (Suc i) (take rk amap)))" for ie' oe' fe'
    using Suc.hyps(1) [of "Suc i"] Suc.hyps(2) Suc.prems by simp
  have "i < length amap" using lt Suc.prems by simp
  then show ?case
    using lt by (subst extents_loop.simps) (simp add: at_def ih step)
qed

lemma extents_loop_full:
  "rk \<le> length amap \<Longrightarrow>
   extents_loop vin vout amap rk 0 ([], [], []) =
     Inr (map (\<lambda>idx. to_int (extent vin idx)) (take rk amap),
          map (\<lambda>idx. to_int (extent vout idx)) (take rk amap),
          map (\<lambda>idx. to_int (max (extent vin idx) (extent vout idx))) (take rk amap))"
  using extents_loop_run [of 0 rk amap vin vout "[]" "[]" "[]"] by simp

lemma extents_loop_short:
  "length amap < rk \<Longrightarrow> i \<le> length amap \<Longrightarrow>
   extents_loop vin vout amap rk i (ie, oe, fe) = Inl Out_of_range"
proof (induction "length amap - i" arbitrary: i ie oe fe)
  case 0
  then show ?case by (subst extents_loop.simps) (simp add: at_def)
next
  case (Suc n)
  then have "i < length amap" "i < rk" by simp_all
  moreover have "extents_loop vin vout amap rk (Suc i) (ie', oe', fe') = Inl Out_of_range"
    for ie' oe' fe'
    using Suc.hyps(1) [of "Suc i"] Suc.hyps(2) Suc.prems by simp
  ultimately show ?case
    by (subst extents_loop.simps) (simp add: at_def)
qed

lemma extents_loop_InrD:
  assumes "extents_loop vin vout amap rk 0 ([], [], []) = Inr (ie, oe, fe)"
  shows "rk \<le> length amap"
    and "ie = map (\<lambda>idx. to_int (extent vin idx)) (take rk amap)"
    and "oe = map (\<lambda>idx. to_int (extent vout idx)) (take rk amap)"
    and "fe = map (\<lambda>idx. to_int (max (extent vin idx) (extent vout idx))) (take rk amap)"
proof -
  show le: "rk \<le> length amap"
  proof (rule ccontr)
    assume "\<not> rk \<le> length amap"
    then have "extents_loop vin vout amap rk 0 ([], [], []) = Inl Out_of_range"
      using extents_loop_short [of amap rk 0] by simp
    with assms show False by simp
  qed
  from assms extents_loop_full [OF le, of vin vout]
  show "ie = map (\<lambda>idx. to_int (extent vin idx)) (take rk amap)"
    and "oe = map (\<lambda>idx. to_int (extent vout idx)) (take rk amap)"
    and "fe = map (\<lambda>idx. to_int (max (extent vin idx) (extent vout idx))) (take rk amap)"
    by simp_all
qed

subsection \<open>The type checks\<close>

lemma int_div_by_2: "int_div a 2 = Inr (int_quotient a 2)"
  by (simp add: int_div_def)

lemma assert_halved_simps:
  "assert_halved True lhs rhs ax = Inr ()"
  "ax < length lhs \<Longrightarrow> ax < length rhs \<Longrightarrow>
     assert_halved False lhs rhs ax =
       (if lhs ! ax = int_quotient (rhs ! ax) 2 + 1 then Inr () else Inl Assertion_failed)"
  by (simp_all add: assert_halved_def at_def int_div_by_2)

lemma check_real_input_simps:
  "\<not> is_floating_point tin \<Longrightarrow> check_real_input NDEBUG tin tout ax ie oe = Inr ()"
  "is_floating_point tin \<Longrightarrow> \<not> is_complex tout \<Longrightarrow>
     check_real_input NDEBUG tin tout ax ie oe =
       Inl (Runtime_error ''If the input type is real, the output type should be complex'')"
  "is_floating_point tin \<Longrightarrow> is_complex tout \<Longrightarrow>
     check_real_input NDEBUG tin tout ax ie oe = assert_halved NDEBUG oe ie ax"
  by (simp_all add: check_real_input_def)

lemma check_real_output_simps:
  "\<not> is_floating_point tout \<Longrightarrow> check_real_output NDEBUG tin tout ax ie oe = Inr ()"
  "is_floating_point tout \<Longrightarrow> \<not> is_complex tin \<Longrightarrow>
     check_real_output NDEBUG tin tout ax ie oe =
       Inl (Runtime_error ''If the output type is real, the input type should be complex'')"
  "is_floating_point tout \<Longrightarrow> is_complex tin \<Longrightarrow>
     check_real_output NDEBUG tin tout ax ie oe = assert_halved NDEBUG ie oe ax"
  by (simp_all add: check_real_output_def)

lemma floating_point_not_complex: "is_floating_point t \<Longrightarrow> \<not> is_complex t"
  by (cases t) simp_all

lemma complex_not_floating_point: "is_complex t \<Longrightarrow> \<not> is_floating_point t"
  by (cases t) simp_all

lemma inner_most_axis_less: "0 < rank vin \<Longrightarrow> inner_most_axis vin < rank vin"
  by (simp add: inner_most_axis_def)

lemmas model_defs =
  get_extents_def at_def to_int_def int_div_def int_quotient_def assert_halved_def
  check_real_input_def check_real_output_def
  inner_most_axis_def to_layout_right_def subvector_def accumulate_def
  signed_divide_int_def extents_loop.simps Let_def

subsection \<open>The function after a complete loop\<close>

lemma get_extents_valid:
  assumes "DIM \<le> rank vin" "0 < DIM" "rank vin \<le> length amap"
  shows "get_extents NDEBUG vin vout amap DIM =
    (let ie = map (\<lambda>idx. to_int (extent vin idx)) (take (rank vin) amap);
         oe = map (\<lambda>idx. to_int (extent vout idx)) (take (rank vin) amap);
         fe = map (\<lambda>idx. to_int (max (extent vin idx) (extent vout idx)))
                (take (rank vin) amap)
     in case check_real_input NDEBUG (non_const_value_type vin) (non_const_value_type vout)
               (inner_most_axis vin) ie oe of
          Inl e \<Rightarrow> Inl e
        | Inr _ \<Rightarrow>
           (case check_real_output NDEBUG (non_const_value_type vin)
                   (non_const_value_type vout) (inner_most_axis vin) ie oe of
              Inl e \<Rightarrow> Inl e
            | Inr _ \<Rightarrow>
               (case int_div (accumulate (to_layout_right (array_layout vin) fe))
                       (accumulate (subvector (to_layout_right (array_layout vin) fe) DIM)) of
                  Inl e \<Rightarrow> Inl e
                | Inr howmany \<Rightarrow>
                    Inr (subvector (to_layout_right (array_layout vin) ie) DIM,
                         subvector (to_layout_right (array_layout vin) oe) DIM,
                         subvector (to_layout_right (array_layout vin) fe) DIM,
                         howmany))))"
  using assms by (simp add: get_extents_def extents_loop_full Let_def split: sum.splits)

lemma real_input_needs_complex_output:
  assumes "DIM \<le> rank vin" "0 < DIM" "rank vin \<le> length amap"
    and "is_floating_point (non_const_value_type vin)"
    and "\<not> is_complex (non_const_value_type vout)"
  shows "get_extents NDEBUG vin vout amap DIM =
    Inl (Runtime_error ''If the input type is real, the output type should be complex'')"
  using assms by (simp add: get_extents_valid check_real_input_simps)

subsection \<open>Arithmetic of the machine integers\<close>

lemma sint_word_of_int_small:
  "- (2 ^ 31) \<le> k \<Longrightarrow> k < 2 ^ 31 \<Longrightarrow> sint (word_of_int k :: cint) = k"
  by (simp add: signed_of_int signed_take_bit_int_eq_self)

lemma to_int_small: "x < 2 ^ 31 \<Longrightarrow> sint (to_int x) = uint x"
proof -
  assume "x < 2 ^ 31"
  then have "uint x < 2 ^ 31"
    by (simp add: word_less_def)
  moreover have "- (2 ^ 31) \<le> uint x"
    by (rule order_trans [OF _ uint_ge_0]) simp
  ultimately have "signed_take_bit 31 (uint x) = uint x"
    by (rule signed_take_bit_int_eq_self [rotated])
  then show ?thesis
    by (simp add: to_int_def signed_ucast_eq)
qed

lemma half_plus_one_le: "1 \<le> (n::size_t) \<Longrightarrow> n div 2 + 1 \<le> n"
proof -
  assume "1 \<le> n"
  then have n: "1 \<le> unat n" by (simp add: word_le_nat_alt)
  have lt: "unat n < 2 ^ 64" using unsigned_less [of n] by simp
  have d: "unat (n div 2) = unat n div 2" by (simp add: unat_div)
  have "unat (n div 2) + unat (1::size_t) < 2 ^ LENGTH(64)" using d lt by simp
  then have "unat (n div 2 + 1) = unat (n div 2) + unat (1::size_t)"
    by (simp only: unat_add_lem)
  then show ?thesis using n d by (simp add: word_le_nat_alt)
qed

lemma foldl_mult_prod: "foldl (\<lambda>acc x. acc * x) a xs = a * word_of_int (prod_list (map sint xs))"
  for a :: cint
  by (induction xs arbitrary: a) (simp_all add: mult.assoc)

lemma accumulate_prod: "accumulate xs = word_of_int (prod_list (map sint xs))"
  by (simp add: accumulate_def foldl_mult_prod)

lemma sdiv_mult_cancel: "f \<noteq> 0 \<Longrightarrow> (q * f) sdiv f = (q::int)"
  by (metis signed_divide_int_def div_dvd_sgn_abs dvd_triv_right nonzero_mult_div_cancel_right)

subsection \<open>Reversal and slicing\<close>

lemma to_layout_right_map: "to_layout_right l (map f xs) = map f (to_layout_right l xs)"
  by (simp add: to_layout_right_def rev_map)

lemma subvector_map: "subvector (map f xs) n = map f (subvector xs n)"
  by (simp add: subvector_def drop_map)

lemma length_to_layout_right: "length (to_layout_right l xs) = length xs"
  by (simp add: to_layout_right_def)

lemma set_to_layout_right: "set (to_layout_right l xs) = set xs"
  by (simp add: to_layout_right_def)

lemma length_subvector: "n \<le> length xs \<Longrightarrow> length (subvector xs n) = n"
  by (simp add: subvector_def)

lemma set_subvector: "set (subvector xs n) \<subseteq> set xs"
  by (simp add: subvector_def set_drop_subset)

lemma nth_subvector:
  "n \<le> length xs \<Longrightarrow> k < n \<Longrightarrow> subvector xs n ! k = xs ! (length xs - n + k)"
  by (simp add: subvector_def)

subsection \<open>What a returned tuple consists of\<close>

lemma int_div_InrD:
  assumes "int_div a b = Inr q"
  shows "b \<noteq> 0" and "q = int_quotient a b"
  using assms by (auto simp add: int_div_def split: if_splits)

lemma get_extents_InrD:
  assumes "get_extents NDEBUG vin vout amap DIM = Inr (a, b, c, h)"
  shows "DIM \<le> rank vin" and "0 < DIM" and "rank vin \<le> length amap"
    and "a = map (\<lambda>idx. to_int (extent vin idx))
               (subvector (to_layout_right (array_layout vin) (take (rank vin) amap)) DIM)"
    and "b = map (\<lambda>idx. to_int (extent vout idx))
               (subvector (to_layout_right (array_layout vin) (take (rank vin) amap)) DIM)"
    and "c = map (\<lambda>idx. to_int (max (extent vin idx) (extent vout idx)))
               (subvector (to_layout_right (array_layout vin) (take (rank vin) amap)) DIM)"
    and "accumulate c \<noteq> 0"
    and "h = int_quotient
               (accumulate (map (\<lambda>idx. to_int (max (extent vin idx) (extent vout idx)))
                  (to_layout_right (array_layout vin) (take (rank vin) amap))))
               (accumulate c)"
proof -
  from assms show st: "DIM \<le> rank vin" and st': "0 < DIM"
    by (auto simp add: get_extents_def split: if_splits)
  show le: "rank vin \<le> length amap"
  proof (rule ccontr)
    assume "\<not> rank vin \<le> length amap"
    then have "extents_loop vin vout amap (rank vin) 0 ([], [], []) = Inl Out_of_range"
      using extents_loop_short [of amap "rank vin" 0] by simp
    with assms st st' show False by (simp add: get_extents_def)
  qed
  note v = get_extents_valid [OF st st' le, of NDEBUG vout]
  let ?fe = "map (\<lambda>idx. to_int (max (extent vin idx) (extent vout idx))) (take (rank vin) amap)"
  from assms have r: "int_div (accumulate (to_layout_right (array_layout vin) ?fe))
        (accumulate (subvector (to_layout_right (array_layout vin) ?fe) DIM)) = Inr h"
    and abc: "a = subvector (to_layout_right (array_layout vin)
                (map (\<lambda>idx. to_int (extent vin idx)) (take (rank vin) amap))) DIM"
      "b = subvector (to_layout_right (array_layout vin)
                (map (\<lambda>idx. to_int (extent vout idx)) (take (rank vin) amap))) DIM"
      "c = subvector (to_layout_right (array_layout vin) ?fe) DIM"
    by (auto simp add: v Let_def split: sum.splits)
  from abc
  show "a = map (\<lambda>idx. to_int (extent vin idx))
               (subvector (to_layout_right (array_layout vin) (take (rank vin) amap)) DIM)"
    and "b = map (\<lambda>idx. to_int (extent vout idx))
               (subvector (to_layout_right (array_layout vin) (take (rank vin) amap)) DIM)"
    and c: "c = map (\<lambda>idx. to_int (max (extent vin idx) (extent vout idx)))
               (subvector (to_layout_right (array_layout vin) (take (rank vin) amap)) DIM)"
    by (simp_all add: to_layout_right_map subvector_map)
  from int_div_InrD [OF r] abc(3)
  show "accumulate c \<noteq> 0"
    and "h = int_quotient
               (accumulate (map (\<lambda>idx. to_int (max (extent vin idx) (extent vout idx)))
                  (to_layout_right (array_layout vin) (take (rank vin) amap))))
               (accumulate c)"
    by (simp_all add: to_layout_right_map)
qed

lemma uint_max: "uint (max x y) = max (uint x) (uint y)"
  by (simp add: max_def word_le_def)

lemma last_subvector_to_layout_right:
  assumes "0 < n" "n \<le> length xs"
  shows "last (subvector (to_layout_right l xs) n) =
    xs ! (if l = LayoutLeft then 0 else length xs - 1)"
proof -
  from assms have ne: "xs \<noteq> []" by auto
  have "last (drop (length ys - n) ys) = last ys" if "length ys = length xs" for ys :: "'a list"
    using that assms by simp
  then have "last (subvector (to_layout_right l xs) n) = last (to_layout_right l xs)"
    by (simp add: subvector_def length_to_layout_right)
  also have "\<dots> = xs ! (if l = LayoutLeft then 0 else length xs - 1)"
  proof (cases "l = LayoutLeft")
    case True
    then show ?thesis using ne by (simp add: to_layout_right_def last_rev hd_conv_nth)
  next
    case False
    then show ?thesis using ne by (simp add: to_layout_right_def last_conv_nth)
  qed
  finally show ?thesis .
qed

lemma max_real_side: "1 \<le> (n::size_t) \<Longrightarrow> max n (n div 2 + 1) = n"
  using half_plus_one_le [of n] by (simp add: max_def)

subsection \<open>A column-major call and its row-major equivalent\<close>

lemma at_rev_last: "0 < length xs \<Longrightarrow> at (rev xs) (length xs - 1) = at xs 0"
  by (simp add: at_def rev_nth)

lemma assert_halved_rev:
  assumes "length lhs = r" "length rhs = r" "0 < r"
  shows "assert_halved NDEBUG (rev lhs) (rev rhs) (r - 1) = assert_halved NDEBUG lhs rhs 0"
  using assms at_rev_last [of lhs] at_rev_last [of rhs]
  by (simp add: assert_halved_def split: sum.splits)

lemma check_real_input_rev:
  assumes "length ie = r" "length oe = r" "0 < r"
  shows "check_real_input NDEBUG tin tout (r - 1) (rev ie) (rev oe) =
    check_real_input NDEBUG tin tout 0 ie oe"
  using assms assert_halved_rev [of oe r ie NDEBUG] by (simp add: check_real_input_def)

lemma check_real_output_rev:
  assumes "length ie = r" "length oe = r" "0 < r"
  shows "check_real_output NDEBUG tin tout (r - 1) (rev ie) (rev oe) =
    check_real_output NDEBUG tin tout 0 ie oe"
  using assms assert_halved_rev [of ie r oe NDEBUG] by (simp add: check_real_output_def)

lemma map_reversed_axes:
  assumes "\<forall>a\<in>set amap. a < rk"
  shows "map (\<lambda>idx. f (rk - 1 - idx)) (reversed_axes rk amap) = rev (map f amap)"
proof -
  have "map (\<lambda>idx. f (rk - 1 - idx)) (map (\<lambda>a. rk - 1 - a) amap) = map f amap"
    using assms by (induction amap) simp_all
  then show ?thesis by (simp add: reversed_axes_def rev_map)
qed

lemma column_major_equivalence:
  assumes "array_layout vin = LayoutLeft" "rank vout = rank vin" "length amap = rank vin"
    and "\<forall>a\<in>set amap. a < rank vin"
  shows "get_extents NDEBUG vin vout amap DIM =
    get_extents NDEBUG (row_major_equivalent vin) (row_major_equivalent vout)
      (reversed_axes (rank vin) amap) DIM"
proof (cases "DIM \<le> rank vin \<and> 0 < DIM")
  case False
  then show ?thesis
    by (auto simp add: get_extents_def row_major_equivalent_def)
next
  case True
  then have st: "DIM \<le> rank vin" "0 < DIM" by simp_all
  then have pos: "0 < rank vin" by simp
  let ?vin = "row_major_equivalent vin" and ?vout = "row_major_equivalent vout"
  let ?amap = "reversed_axes (rank vin) amap"
  have rk: "rank ?vin = rank vin" by (simp add: row_major_equivalent_def)
  have len: "length ?amap = rank vin" using assms(3) by (simp add: reversed_axes_def)
  have lay: "array_layout ?vin = LayoutRight" by (simp add: row_major_equivalent_def)
  have ty: "non_const_value_type ?vin = non_const_value_type vin"
    "non_const_value_type ?vout = non_const_value_type vout"
    by (simp_all add: row_major_equivalent_def)
  have ax: "inner_most_axis vin = 0" "inner_most_axis ?vin = rank vin - 1"
    using assms(1) by (simp_all add: inner_most_axis_def row_major_equivalent_def)
  have ei: "map (\<lambda>idx. to_int (extent ?vin idx)) ?amap =
      rev (map (\<lambda>idx. to_int (extent vin idx)) amap)"
    using map_reversed_axes [OF assms(4), of "\<lambda>idx. to_int (extent vin idx)"]
    by (simp add: row_major_equivalent_def)
  have eo: "map (\<lambda>idx. to_int (extent ?vout idx)) ?amap =
      rev (map (\<lambda>idx. to_int (extent vout idx)) amap)"
    using map_reversed_axes [OF assms(4), of "\<lambda>idx. to_int (extent vout idx)"] assms(2)
    by (simp add: row_major_equivalent_def)
  have ef: "map (\<lambda>idx. to_int (max (extent ?vin idx) (extent ?vout idx))) ?amap =
      rev (map (\<lambda>idx. to_int (max (extent vin idx) (extent vout idx))) amap)"
    using map_reversed_axes [OF assms(4),
        of "\<lambda>idx. to_int (max (extent vin idx) (extent vout idx))"] assms(2)
    by (simp add: row_major_equivalent_def)
  have lhs: "rank vin \<le> length amap" and rhs: "rank ?vin \<le> length ?amap"
    using assms(3) len rk by simp_all
  have st': "DIM \<le> rank ?vin" using st(1) rk by simp
  show ?thesis
    unfolding get_extents_valid [OF st(1) st(2) lhs] get_extents_valid [OF st' st(2) rhs]
    using pos
    by (simp add: rk len assms(1,3) lay ty ax ei eo ef Let_def to_layout_right_def
        check_real_input_rev [where r = "rank vin", simplified]
        check_real_output_rev [where r = "rank vin", simplified]
        cong: sum.case_cong)
qed

lemma extents_loop_row_major_equivalent:
  assumes "array_layout vin = LayoutLeft" "rank vout = rank vin" "length amap = rank vin"
    and "\<forall>a\<in>set amap. a < rank vin"
    and "extents_loop vin vout amap (rank vin) 0 ([], [], []) = Inr (ie, oe, fe)"
  shows "extents_loop (row_major_equivalent vin) (row_major_equivalent vout)
      (reversed_axes (rank vin) amap) (rank vin) 0 ([], [], []) = Inr (rev ie, rev oe, rev fe)"
proof -
  note l = extents_loop_InrD [OF assms(5)]
  have len: "rank vin \<le> length (reversed_axes (rank vin) amap)"
    using assms(3) by (simp add: reversed_axes_def)
  have len': "length (reversed_axes (rank vin) amap) = rank vin"
    using assms(3) by (simp add: reversed_axes_def)
  show ?thesis
    unfolding extents_loop_full [OF len]
    using map_reversed_axes [OF assms(4), of "\<lambda>idx. to_int (extent vin idx)"]
      map_reversed_axes [OF assms(4), of "\<lambda>idx. to_int (extent vout idx)"]
      map_reversed_axes [OF assms(4),
        of "\<lambda>idx. to_int (max (extent vin idx) (extent vout idx))"]
    by (simp add: l(2,3,4) len' assms(2,3) row_major_equivalent_def)
qed

subsection \<open>Products and the batch count without overflow\<close>

lemma abs_factor_le:
  fixes q f :: int
  assumes "q \<noteq> 0" "f \<noteq> 0"
  shows "\<bar>q\<bar> \<le> \<bar>q * f\<bar>" and "\<bar>f\<bar> \<le> \<bar>q * f\<bar>"
proof -
  have q: "1 \<le> \<bar>q\<bar>" and f: "1 \<le> \<bar>f\<bar>" using assms by simp_all
  have "\<bar>q\<bar> * 1 \<le> \<bar>q\<bar> * \<bar>f\<bar>" using f by (intro mult_left_mono) simp_all
  then show "\<bar>q\<bar> \<le> \<bar>q * f\<bar>" by (simp add: abs_mult)
  have "1 * \<bar>f\<bar> \<le> \<bar>q\<bar> * \<bar>f\<bar>" using q by (intro mult_right_mono) simp_all
  then show "\<bar>f\<bar> \<le> \<bar>q * f\<bar>" by (simp add: abs_mult)
qed

lemma sint_word_of_int_abs: "\<bar>k\<bar> < 2 ^ 31 \<Longrightarrow> sint (word_of_int k :: cint) = k"
  by (rule sint_word_of_int_small) simp_all

lemma int_quotient_exact:
  fixes p c :: "cint list"
  assumes "accumulate c \<noteq> 0" and "\<bar>prod_list (map sint (p @ c))\<bar> < 2 ^ 31"
  shows "sint (int_quotient (accumulate (p @ c)) (accumulate c)) = prod_list (map sint p)"
    and "sint (accumulate (p @ c)) = prod_list (map sint p) * sint (accumulate c)"
proof -
  let ?Q = "prod_list (map sint p)" and ?F = "prod_list (map sint c)"
  have F: "?F \<noteq> 0"
    using assms(1) by (auto simp add: accumulate_prod)
  have P: "prod_list (map sint (p @ c)) = ?Q * ?F" by simp
  have "sint (int_quotient (accumulate (p @ c)) (accumulate c)) = ?Q
      \<and> sint (accumulate (p @ c)) = ?Q * sint (accumulate c)"
  proof (cases "?Q = 0")
    case True
    then have "accumulate (p @ c) = 0" by (simp add: accumulate_prod)
    then show ?thesis using True by (simp add: int_quotient_def signed_divide_int_def)
  next
    case False
    from abs_factor_le [OF False F] assms(2)
    have q: "\<bar>?Q\<bar> < 2 ^ 31" and f: "\<bar>?F\<bar> < 2 ^ 31" unfolding P by linarith+
    have sf: "sint (accumulate c) = ?F"
      unfolding accumulate_prod using f by (rule sint_word_of_int_abs)
    have sp: "sint (accumulate (p @ c)) = ?Q * ?F"
      unfolding accumulate_prod using assms(2) P sint_word_of_int_abs by metis
    have "int_quotient (accumulate (p @ c)) (accumulate c) = word_of_int ?Q"
      by (simp only: int_quotient_def sf sp sdiv_mult_cancel [OF F])
    then show ?thesis using q sf sp by (simp add: sint_word_of_int_abs)
  qed
  then show "sint (int_quotient (accumulate (p @ c)) (accumulate c)) = prod_list (map sint p)"
    and "sint (accumulate (p @ c)) = prod_list (map sint p) * sint (accumulate c)"
    by simp_all
qed

lemma subvector_split: "take (length xs - n) xs @ subvector xs n = xs"
  by (simp add: subvector_def)

lemma prod_sint_to_layout_right:
  "prod_list (map sint (to_layout_right l xs)) = prod_list (map sint xs)"
  by (simp add: to_layout_right_def rev_map [symmetric] prod_list.rev)

lemma member_le_prod_list:
  fixes ns :: "nat list"
  assumes "\<forall>n\<in>set ns. 1 \<le> n" "x \<in> set ns"
  shows "x \<le> prod_list ns"
  using assms
proof (induction ns)
  case Nil
  then show ?case by simp
next
  case (Cons n ns)
  have pos: "1 \<le> prod_list ns"
    using Cons.prems(1) by (induction ns) (simp_all add: Suc_le_eq)
  show ?case
  proof (cases "x = n")
    case True
    then show ?thesis using pos by simp
  next
    case False
    with Cons have "x \<le> prod_list ns" by simp
    moreover have "1 \<le> n" using Cons.prems(1) by simp
    ultimately show ?thesis
      by (metis mult.commute mult_le_mono2 mult_1 le_trans prod_list.Cons nat_mult_1_right)
  qed
qed

lemma prod_list_ge_one:
  fixes ks :: "int list"
  assumes "\<forall>k\<in>set ks. 1 \<le> k"
  shows "1 \<le> prod_list ks"
  using assms
proof (induction ks)
  case Nil
  then show ?case by simp
next
  case (Cons k ks)
  then have "1 \<le> k" "1 \<le> prod_list ks" by simp_all
  then have "1 * 1 \<le> k * prod_list ks" by (intro mult_mono) simp_all
  then show ?case by simp
qed

lemma positive_batch:
  fixes ws :: "cint list"
  assumes "\<forall>x\<in>set ws. 1 \<le> sint x" and "prod_list (map sint ws) < 2 ^ 31"
  shows "accumulate (subvector ws n) \<noteq> 0"
    and "1 \<le> sint (accumulate (subvector ws n))"
    and "1 \<le> sint (int_quotient (accumulate ws) (accumulate (subvector ws n)))"
proof -
  let ?p = "take (length ws - n) ws" and ?c = "subvector ws n"
  have ws: "?p @ ?c = ws" by (rule subvector_split)
  have "set ?p \<subseteq> set ws" by (rule set_take_subset)
  then have Q: "1 \<le> prod_list (map sint ?p)"
    using assms(1) by (intro prod_list_ge_one) auto
  have F: "1 \<le> prod_list (map sint ?c)"
    using assms(1) set_subvector [of ws n] by (intro prod_list_ge_one) auto
  have P: "prod_list (map sint ws) = prod_list (map sint ?p) * prod_list (map sint ?c)"
    by (subst (1) ws [symmetric]) (simp del: append_take_drop_id)
  have "prod_list (map sint ?c) * 1 \<le> prod_list (map sint ?c) * prod_list (map sint ?p)"
    using Q F by (intro mult_left_mono) simp_all
  then have "prod_list (map sint ?c) < 2 ^ 31"
    using P assms(2) by (simp add: mult.commute)
  then have "\<bar>prod_list (map sint ?c)\<bar> < 2 ^ 31" using F by simp
  then have "sint (accumulate ?c) = prod_list (map sint ?c)"
    unfolding accumulate_prod by (rule sint_word_of_int_abs)
  with F show nz: "accumulate ?c \<noteq> 0" and "1 \<le> sint (accumulate ?c)" by auto
  have "1 \<le> prod_list (map sint ws)" using assms(1) by (intro prod_list_ge_one) auto
  then have b: "\<bar>prod_list (map sint (?p @ ?c))\<bar> < 2 ^ 31"
    unfolding ws using assms(2) by simp
  from int_quotient_exact(1) [OF nz b] Q
  show "1 \<le> sint (int_quotient (accumulate ws) (accumulate ?c))"
    unfolding ws by simp
qed

lemma prod_list_map_int: "prod_list (map (\<lambda>x. int (f x)) xs) = int (prod_list (map f xs))"
  by (induction xs) simp_all

lemma word_less_2p31: "unat (x :: size_t) < 2 ^ 31 \<Longrightarrow> x < 2 ^ 31"
  by (simp add: word_less_nat_alt)

lemma assert_halved_no_division:
  "assert_halved NDEBUG lhs rhs ax \<noteq> Inl Division_by_zero"
  "assert_halved NDEBUG lhs rhs ax \<noteq> Inl Division_overflow"
  by (simp_all add: assert_halved_def at_def int_div_by_2 split: sum.splits)

lemma check_real_input_no_division:
  "check_real_input NDEBUG tin tout ax ie oe \<noteq> Inl Division_by_zero"
  "check_real_input NDEBUG tin tout ax ie oe \<noteq> Inl Division_overflow"
  by (simp_all add: check_real_input_def assert_halved_no_division)

lemma check_real_output_no_division:
  "check_real_output NDEBUG tin tout ax ie oe \<noteq> Inl Division_by_zero"
  "check_real_output NDEBUG tin tout ax ie oe \<noteq> Inl Division_overflow"
  by (simp_all add: check_real_output_def assert_halved_no_division)

subsection \<open>The assertion on extents that fit \<open>int\<close>\<close>

lemma halved_on_extents:
  fixes x y :: size_t
  assumes "x < 2 ^ 31" "y < 2 ^ 31"
  shows "(to_int y = int_quotient (to_int x) 2 + 1) = (unat y = unat x div 2 + 1)"
proof -
  have sx: "sint (to_int x) = uint x" and sy: "sint (to_int y) = uint y"
    using assms by (simp_all add: to_int_small)
  have x0: "0 \<le> uint x" by simp
  have xb: "uint x < 2 ^ 31" using assms(1) by (simp add: word_less_def)
  have q: "sint (to_int x) sdiv 2 = uint x div 2"
    using x0 by (simp add: sx signed_divide_int_def sgn_if)
  have "- (2 ^ 31) \<le> uint x div 2 + 1" "uint x div 2 + 1 < 2 ^ 31"
    using x0 xb by simp_all
  then have h: "sint (int_quotient (to_int x) 2 + 1) = uint x div 2 + 1"
    using sint_word_of_int_small [of "uint x div 2 + 1"]
    by (simp add: int_quotient_def q)
  have "(to_int y = int_quotient (to_int x) 2 + 1) =
      (sint (to_int y) = sint (int_quotient (to_int x) 2 + 1))"
    by (auto intro: signed_word_eqI)
  also have "\<dots> = (uint y = uint x div 2 + 1)"
    by (simp only: sy h)
  also have "\<dots> = (int (unat y) = int (unat x div 2 + 1))"
    by (simp add: zdiv_int add.commute)
  also have "\<dots> = (unat y = unat x div 2 + 1)"
    by (rule of_nat_eq_iff)
  finally show ?thesis .
qed

section \<open>The halved extent of a real transform\<close>

text \<open>
  Claim C1, as amended. In a build with assertions (\<open>NDEBUG\<close> not defined), for every
  call whose input and output extents at the innermost position are below \<open>2 ^ 31\<close>: with
  a real input and a complex output the call aborts in its assertion exactly when the
  output extent there differs from the input extent there divided by 2 (rounding down)
  plus 1; with a complex input and a real output the same holds with the two sides
  exchanged. The innermost position is \<open>rank - 1\<close> for a row-major and \<open>0\<close> for a
  column-major input view. With \<open>NDEBUG\<close> no call aborts in an assertion.
\<close>

theorem halved_extent_required:
  assumes "DIM \<le> rank vin" "0 < DIM" "rank vin \<le> length amap"
    and "extent vin (amap ! (if array_layout vin = LayoutLeft then 0 else rank vin - 1))
          < 2 ^ 31"
    and "extent vout (amap ! (if array_layout vin = LayoutLeft then 0 else rank vin - 1))
          < 2 ^ 31"
  shows "(\<not> NDEBUG \<and> is_floating_point (non_const_value_type vin)
            \<and> is_complex (non_const_value_type vout) \<longrightarrow>
           (get_extents NDEBUG vin vout amap DIM = Inl Assertion_failed) =
           (unat (extent vout (amap ! (if array_layout vin = LayoutLeft then 0
                                       else rank vin - 1))) \<noteq>
            unat (extent vin (amap ! (if array_layout vin = LayoutLeft then 0
                                      else rank vin - 1))) div 2 + 1))
       \<and> (\<not> NDEBUG \<and> is_floating_point (non_const_value_type vout)
            \<and> is_complex (non_const_value_type vin) \<longrightarrow>
           (get_extents NDEBUG vin vout amap DIM = Inl Assertion_failed) =
           (unat (extent vin (amap ! (if array_layout vin = LayoutLeft then 0
                                      else rank vin - 1))) \<noteq>
            unat (extent vout (amap ! (if array_layout vin = LayoutLeft then 0
                                       else rank vin - 1))) div 2 + 1))
       \<and> (NDEBUG \<longrightarrow> get_extents NDEBUG vin vout amap DIM \<noteq> Inl Assertion_failed)"
proof -
  let ?ax = "inner_most_axis vin"
  let ?i = "extent vin (amap ! ?ax)" and ?o = "extent vout (amap ! ?ax)"
  have pos: "(if array_layout vin = LayoutLeft then 0 else rank vin - 1) = ?ax"
    by (simp add: inner_most_axis_def)
  have ax: "?ax < rank vin"
    using assms by (simp add: inner_most_axis_less)
  then have ax': "?ax < length amap"
    using assms by simp
  have i: "?i < 2 ^ 31" and o: "?o < 2 ^ 31"
    using assms(4,5) unfolding pos by simp_all
  have io: "(to_int ?o = int_quotient (to_int ?i) 2 + 1) = (unat ?o = unat ?i div 2 + 1)"
    using i o by (rule halved_on_extents)
  have oi: "(to_int ?i = int_quotient (to_int ?o) 2 + 1) = (unat ?i = unat ?o div 2 + 1)"
    using o i by (rule halved_on_extents)
  have r2c: "(get_extents NDEBUG vin vout amap DIM = Inl Assertion_failed) =
      (unat ?o \<noteq> unat ?i div 2 + 1)"
    if "\<not> NDEBUG" "is_floating_point (non_const_value_type vin)"
      "is_complex (non_const_value_type vout)"
    using that assms(1,2,3) ax ax' io
    by (auto simp add: get_extents_valid check_real_input_simps check_real_output_simps
        assert_halved_simps complex_not_floating_point Let_def int_div_def split: sum.splits)
  have c2r: "(get_extents NDEBUG vin vout amap DIM = Inl Assertion_failed) =
      (unat ?i \<noteq> unat ?o div 2 + 1)"
    if "\<not> NDEBUG" "is_floating_point (non_const_value_type vout)"
      "is_complex (non_const_value_type vin)"
    using that assms(1,2,3) ax ax' oi
    by (auto simp add: get_extents_valid check_real_input_simps check_real_output_simps
        assert_halved_simps complex_not_floating_point Let_def int_div_def split: sum.splits)
  have nd: "get_extents NDEBUG vin vout amap DIM \<noteq> Inl Assertion_failed" if NDEBUG
    using that assms(1,2,3)
    by (auto simp add: get_extents_valid check_real_input_def check_real_output_def
        assert_halved_simps Let_def int_div_def split: sum.splits)
  from r2c c2r nd show ?thesis unfolding pos by blast
qed

text \<open>
  A real view of shape (4, 5) with a complex view of shape (4, 4), transformed along
  axis 1: the output extent 4 is not \<open>5 / 2 + 1 = 3\<close>, and the call aborts; with the
  complex shape (4, 3) the assertion holds. The same two pairs in the other direction.
  With \<open>NDEBUG\<close> the first pair does not abort. A column-major real view of shape
  (4, 5), whose innermost axis is axis 0: the complex shape (4, 5) aborts, the complex
  shape (3, 5) does not.
\<close>

theorem halved_extent_required_witness:
  "get_extents False (View [4, 5] LayoutRight Floating_point) (View [4, 4] LayoutRight Complex)
     [0, 1] 1 = Inl Assertion_failed
   \<and> get_extents False (View [4, 5] LayoutRight Floating_point)
       (View [4, 3] LayoutRight Complex) [0, 1] 1 \<noteq> Inl Assertion_failed
   \<and> get_extents False (View [4, 4] LayoutRight Complex)
       (View [4, 5] LayoutRight Floating_point) [0, 1] 1 = Inl Assertion_failed
   \<and> get_extents False (View [4, 3] LayoutRight Complex)
       (View [4, 5] LayoutRight Floating_point) [0, 1] 1 \<noteq> Inl Assertion_failed
   \<and> get_extents True (View [4, 5] LayoutRight Floating_point)
       (View [4, 4] LayoutRight Complex) [0, 1] 1 \<noteq> Inl Assertion_failed
   \<and> get_extents False (View [4, 5] LayoutLeft Floating_point)
       (View [4, 5] LayoutLeft Complex) [0, 1] 1 = Inl Assertion_failed
   \<and> get_extents False (View [4, 5] LayoutLeft Floating_point)
       (View [3, 5] LayoutLeft Complex) [0, 1] 1 \<noteq> Inl Assertion_failed"
  using halved_extent_required
      [where NDEBUG = False and DIM = 1 and amap = "[0, 1]"
        and vin = "View [4, 5] LayoutRight Floating_point"
        and vout = "View [4, 4] LayoutRight Complex"]
    halved_extent_required
      [where NDEBUG = False and DIM = 1 and amap = "[0, 1]"
        and vin = "View [4, 5] LayoutRight Floating_point"
        and vout = "View [4, 3] LayoutRight Complex"]
    halved_extent_required
      [where NDEBUG = False and DIM = 1 and amap = "[0, 1]"
        and vin = "View [4, 4] LayoutRight Complex"
        and vout = "View [4, 5] LayoutRight Floating_point"]
    halved_extent_required
      [where NDEBUG = False and DIM = 1 and amap = "[0, 1]"
        and vin = "View [4, 3] LayoutRight Complex"
        and vout = "View [4, 5] LayoutRight Floating_point"]
    halved_extent_required
      [where NDEBUG = True and DIM = 1 and amap = "[0, 1]"
        and vin = "View [4, 5] LayoutRight Floating_point"
        and vout = "View [4, 4] LayoutRight Complex"]
    halved_extent_required
      [where NDEBUG = False and DIM = 1 and amap = "[0, 1]"
        and vin = "View [4, 5] LayoutLeft Floating_point"
        and vout = "View [4, 5] LayoutLeft Complex"]
    halved_extent_required
      [where NDEBUG = False and DIM = 1 and amap = "[0, 1]"
        and vin = "View [4, 5] LayoutLeft Floating_point"
        and vout = "View [3, 5] LayoutLeft Complex"]
  by (simp add: View_def)

text \<open>
  Without the bound the claim fails in both directions, since the assertion compares the
  extents after their conversion to \<open>int\<close>. A real view of extent \<open>2 ^ 32 + 5\<close> with a
  complex view of extent 3: the output extent is not \<open>(2 ^ 32 + 5) / 2 + 1 = 2147483651\<close>,
  yet the extents are stored as 5 and 3, the assertion holds and the call returns. A real
  view of extent \<open>2 ^ 32 - 2\<close> with a complex view of extent \<open>2 ^ 31\<close>, which is
  \<open>(2 ^ 32 - 2) / 2 + 1\<close>: the call aborts.
\<close>

theorem halved_extent_required_counterexample:
  "get_extents False (View [4294967301] LayoutRight Floating_point)
     (View [3] LayoutRight Complex) [0] 1 = Inr ([5], [3], [5], 1)
   \<and> unat (3 :: size_t) \<noteq> unat (4294967301 :: size_t) div 2 + 1
   \<and> get_extents False (View [4294967294] LayoutRight Floating_point)
     (View [2147483648] LayoutRight Complex) [0] 1 = Inl Assertion_failed
   \<and> unat (2147483648 :: size_t) = unat (4294967294 :: size_t) div 2 + 1"
  by (simp add: View_def model_defs)

section \<open>Type mismatches\<close>

text \<open>
  Claim C2, as amended. A real input with an output that is not complex fails with the
  message that the output should be complex, and this includes the pairing of a real input
  with a real output. A real output with an input that is neither complex nor real fails
  with the message that the input should be complex. No extents are returned in either
  case.
\<close>

theorem type_mismatch_fails:
  assumes "DIM \<le> rank vin" "0 < DIM" "rank vin \<le> length amap"
  shows "(is_floating_point (non_const_value_type vin)
            \<and> \<not> is_complex (non_const_value_type vout) \<longrightarrow>
          get_extents NDEBUG vin vout amap DIM =
            Inl (Runtime_error ''If the input type is real, the output type should be complex''))
       \<and> (is_floating_point (non_const_value_type vout)
            \<and> \<not> is_complex (non_const_value_type vin)
            \<and> \<not> is_floating_point (non_const_value_type vin) \<longrightarrow>
          get_extents NDEBUG vin vout amap DIM =
            Inl (Runtime_error ''If the output type is real, the input type should be complex''))"
  using assms
  by (simp add: get_extents_valid check_real_input_simps check_real_output_simps)

theorem type_mismatch_fails_witness:
  "get_extents False (View [8] LayoutRight Floating_point) (View [8] LayoutRight Integral) [0] 1 =
     Inl (Runtime_error ''If the input type is real, the output type should be complex'')
   \<and> get_extents False (View [8] LayoutRight Integral) (View [8] LayoutRight Floating_point) [0] 1 =
     Inl (Runtime_error ''If the output type is real, the input type should be complex'')"
  using type_mismatch_fails
      [where NDEBUG = False and DIM = 1 and amap = "[0]"
        and vin = "View [8] LayoutRight Floating_point"
        and vout = "View [8] LayoutRight Integral"]
    type_mismatch_fails
      [where NDEBUG = False and DIM = 1 and amap = "[0]"
        and vin = "View [8] LayoutRight Integral"
        and vout = "View [8] LayoutRight Floating_point"]
  by (simp add: View_def)

text \<open>
  The claim as stated fails where the output is real and the input is real too: the input
  is not complex, yet the message is the one about the output.
\<close>

theorem type_mismatch_counterexample:
  "is_floating_point (non_const_value_type (View [4, 5] LayoutRight Floating_point))
   \<and> \<not> is_complex (non_const_value_type (View [4, 5] LayoutRight Floating_point))
   \<and> get_extents False (View [4, 5] LayoutRight Floating_point)
         (View [4, 5] LayoutRight Floating_point) [0, 1] 1 =
       Inl (Runtime_error ''If the input type is real, the output type should be complex'')
   \<and> get_extents False (View [4, 5] LayoutRight Floating_point)
         (View [4, 5] LayoutRight Floating_point) [0, 1] 1 \<noteq>
       Inl (Runtime_error ''If the output type is real, the input type should be complex'')"
  by (simp add: View_def model_defs)

section \<open>The canonical extent is the larger extent\<close>

text \<open>
  Claim C3, as amended. Whenever the call returns and the extents of both views are below
  \<open>2 ^ 31\<close>, so that they are stored in \<open>int\<close> unchanged, every returned
  \<open>fft_extents[k]\<close> is the maximum of \<open>in_extents[k]\<close> and \<open>out_extents[k]\<close>.
\<close>

theorem fft_extent_is_max:
  assumes "get_extents NDEBUG vin vout amap DIM = Inr (in_extents, out_extents, fft_extents, howmany)"
    and "\<forall>i<rank vin. extent vin (amap ! i) < 2 ^ 31 \<and> extent vout (amap ! i) < 2 ^ 31"
  shows "length in_extents = DIM \<and> length out_extents = DIM \<and> length fft_extents = DIM
    \<and> (\<forall>k<DIM. sint (fft_extents ! k) = max (sint (in_extents ! k)) (sint (out_extents ! k)))"
proof -
  note d = get_extents_InrD [OF assms(1)]
  let ?zs = "subvector (to_layout_right (array_layout vin) (take (rank vin) amap)) DIM"
  have len: "length ?zs = DIM"
    using d(1,3) by (simp add: length_subvector length_to_layout_right)
  have small: "extent vin idx < 2 ^ 31 \<and> extent vout idx < 2 ^ 31" if "idx \<in> set ?zs" for idx
  proof -
    have "set ?zs \<subseteq> set (take (rank vin) amap)"
      using set_subvector [of "to_layout_right (array_layout vin) (take (rank vin) amap)" DIM]
      by (simp add: set_to_layout_right)
    with that have "idx \<in> set (take (rank vin) amap)" by blast
    then obtain i where "i < rank vin" "idx = amap ! i"
      using d(3) by (auto simp add: in_set_conv_nth)
    with assms(2) show ?thesis by simp
  qed
  have "sint (fft_extents ! k) = max (sint (in_extents ! k)) (sint (out_extents ! k))"
    if "k < DIM" for k
  proof -
    from that len have "?zs ! k \<in> set ?zs" by simp
    from small [OF this] have i: "extent vin (?zs ! k) < 2 ^ 31"
      and o: "extent vout (?zs ! k) < 2 ^ 31" by simp_all
    then have m: "max (extent vin (?zs ! k)) (extent vout (?zs ! k)) < 2 ^ 31"
      by (simp add: max_def)
    show ?thesis
      using that len by (simp add: d(4,5,6) to_int_small [OF i] to_int_small [OF o]
          to_int_small [OF m] uint_max)
  qed
  with len show ?thesis by (simp add: d(4,5,6))
qed

theorem fft_extent_is_max_witness:
  "get_extents False (View [4, 5] LayoutRight Floating_point) (View [4, 3] LayoutRight Complex)
     [0, 1] 1 = Inr ([5], [3], [5], 4)
   \<and> sint (5 :: cint) = max (sint (5 :: cint)) (sint (3 :: cint))"
proof -
  have h: "get_extents False (View [4, 5] LayoutRight Floating_point) (View [4, 3] LayoutRight Complex)
     [0, 1] 1 = Inr ([5], [3], [5], 4)"
    by (simp add: View_def model_defs Let_def)
  have b: "\<forall>i<rank (View [4, 5] LayoutRight Floating_point).
      extent (View [4, 5] LayoutRight Floating_point) ([0, 1] ! i) < 2 ^ 31
      \<and> extent (View [4, 3] LayoutRight Complex) ([0, 1] ! i) < 2 ^ 31"
    by (simp add: View_def less_Suc_eq)
  from fft_extent_is_max [OF h b] h show ?thesis by simp
qed

text \<open>
  Without the bound the claim fails: the maximum is taken on \<open>std::size_t\<close> and
  narrowed afterwards. A real view of extent \<open>2 ^ 33 - 2\<close> with a complex view of extent
  \<open>2 ^ 32\<close>, which is \<open>(2 ^ 33 - 2) / 2 + 1\<close>, passes the assertion on the narrowed
  values \<open>-2\<close> and \<open>0\<close>; the call returns \<open>fft_extents = [-2]\<close>, while the maximum
  of the returned \<open>in_extents[0] = -2\<close> and \<open>out_extents[0] = 0\<close> is \<open>0\<close>.
\<close>

theorem fft_extent_is_max_counterexample:
  "get_extents False (View [8589934590] LayoutRight Floating_point)
     (View [4294967296] LayoutRight Complex) [0] 1 = Inr ([4294967294], [0], [4294967294], 1)
   \<and> sint (4294967294 :: cint) = - 2
   \<and> sint (4294967294 :: cint) \<noteq> max (sint (4294967294 :: cint)) (sint (0 :: cint))"
  by (simp add: View_def model_defs Let_def)

section \<open>The batch count\<close>

text \<open>
  Claim C4, as amended. Whenever the call returns and the product of the full-length
  canonical extents, as stored, is representable in \<open>int\<close> (its absolute value is
  below \<open>2 ^ 31\<close>), the product of the returned \<open>fft_extents\<close> is not zero,
  \<open>howmany\<close> times that product is the product of the full-length canonical extents, and
  the division is exact: \<open>total_fft_size = howmany * fft_size\<close>.
\<close>

theorem batch_count_exact:
  assumes "get_extents NDEBUG vin vout amap DIM = Inr (in_extents, out_extents, fft_extents, howmany)"
    and "extents_loop vin vout amap (rank vin) 0 ([], [], []) = Inr (ie, oe, fe)"
    and "\<bar>prod_list (map sint fe)\<bar> < 2 ^ 31"
  shows "prod_list (map sint fft_extents) \<noteq> 0
    \<and> sint howmany * prod_list (map sint fft_extents) = prod_list (map sint fe)
    \<and> sint (accumulate (to_layout_right (array_layout vin) fe)) =
        sint howmany * sint (accumulate fft_extents)"
proof -
  note d = get_extents_InrD [OF assms(1)]
  note l = extents_loop_InrD [OF assms(2)]
  let ?ws = "to_layout_right (array_layout vin) fe"
  let ?p = "take (length ?ws - DIM) ?ws"
  have c: "fft_extents = subvector ?ws DIM"
    by (simp add: d(6) l(4) to_layout_right_map subvector_map)
  have ws: "?p @ fft_extents = ?ws"
    unfolding c by (rule subvector_split)
  have h: "howmany = int_quotient (accumulate (?p @ fft_extents)) (accumulate fft_extents)"
    unfolding ws by (simp add: d(8) l(4) to_layout_right_map)
  have b: "\<bar>prod_list (map sint (?p @ fft_extents))\<bar> < 2 ^ 31"
    unfolding ws using assms(3) by (simp add: prod_sint_to_layout_right)
  note e = int_quotient_exact [OF d(7) b]
  have F: "prod_list (map sint fft_extents) \<noteq> 0"
    using d(7) by (auto simp add: accumulate_prod)
  have "prod_list (map sint fe) = prod_list (map sint (?p @ fft_extents))"
    unfolding ws by (simp add: prod_sint_to_layout_right)
  then have "sint howmany * prod_list (map sint fft_extents) = prod_list (map sint fe)"
    using e(1) h by simp
  moreover have "sint (accumulate ?ws) = sint howmany * sint (accumulate fft_extents)"
    using e h ws by simp
  ultimately show ?thesis using F by simp
qed

theorem batch_count_exact_witness:
  "get_extents False (View [2, 3, 4] LayoutRight Complex) (View [2, 3, 4] LayoutRight Complex)
     [0, 1, 2] 2 = Inr ([3, 4], [3, 4], [3, 4], 2)
   \<and> extents_loop (View [2, 3, 4] LayoutRight Complex) (View [2, 3, 4] LayoutRight Complex)
     [0, 1, 2] 3 0 ([], [], []) = Inr ([2, 3, 4], [2, 3, 4], [2, 3, 4])
   \<and> sint (2 :: cint) * prod_list (map sint [3, 4 :: cint]) =
       prod_list (map sint [2, 3, 4 :: cint])"
proof -
  let ?v = "View [2, 3, 4] LayoutRight Complex"
  have r: "rank ?v = 3" by (simp add: View_def)
  have g: "get_extents False ?v ?v [0, 1, 2] 2 = Inr ([3, 4], [3, 4], [3, 4], 2)"
    by (simp add: View_def model_defs)
  have e: "extents_loop ?v ?v [0, 1, 2] (rank ?v) 0 ([], [], []) =
      Inr ([2, 3, 4], [2, 3, 4], [2, 3, 4])"
    by (simp add: View_def model_defs)
  have b: "\<bar>prod_list (map sint [2, 3, 4 :: cint])\<bar> < 2 ^ 31" by simp
  from batch_count_exact [OF g e b] g e show ?thesis
    unfolding r by blast
qed

text \<open>
  Without the bound the claim fails. Two complex views of shape (65536, 32769), transformed
  along axis 1: every extent fits \<open>int\<close>, but \<open>total_fft_size\<close> is
  \<open>65536 * 32769 = 2 ^ 31 + 65536\<close>, which wraps to \<open>-2147418112\<close>. The call returns
  \<open>howmany = -65532\<close>; \<open>howmany * fft_size\<close> is \<open>-2147418108\<close>, neither the product
  of the canonical extents nor the wrapped \<open>total_fft_size\<close>, and the division left the
  remainder \<open>-4\<close>.
\<close>

theorem batch_count_exact_counterexample:
  "get_extents False (View [65536, 32769] LayoutRight Complex)
     (View [65536, 32769] LayoutRight Complex) [0, 1] 1 =
     Inr ([32769], [32769], [32769], 4294901764)
   \<and> sint (4294901764 :: cint) = - 65532
   \<and> sint (4294901764 :: cint) * prod_list (map sint [32769 :: cint]) \<noteq>
       prod_list (map sint [65536, 32769 :: cint])
   \<and> sint (accumulate [65536, 32769]) \<noteq>
       sint (4294901764 :: cint) * sint (accumulate [32769])"
  by (simp add: View_def model_defs)

section \<open>Column-major views\<close>

text \<open>
  Claim C5. Let the axis map have the length of the rank and name axes below the rank, and
  let \<open>ie\<close>, \<open>oe\<close>, \<open>fe\<close> be the full-length vectors that the loop builds. For a
  column-major input view, the call gives the result (extents, batch count or error) of the
  call on the row-major equivalents of the two views with the renamed and reversed axis
  map, whose full-length vectors are \<open>rev ie\<close>, \<open>rev oe\<close>, \<open>rev fe\<close>; the returned
  extents are the trailing slices of the reversed vectors. For a row-major input view the
  returned extents are the trailing slices of \<open>ie\<close>, \<open>oe\<close>, \<open>fe\<close> themselves.
\<close>

theorem column_major_as_row_major:
  assumes "rank vout = rank vin" "length amap = rank vin" "\<forall>a\<in>set amap. a < rank vin"
    and "extents_loop vin vout amap (rank vin) 0 ([], [], []) = Inr (ie, oe, fe)"
  shows "(array_layout vin = LayoutLeft \<longrightarrow>
            get_extents NDEBUG vin vout amap DIM =
              get_extents NDEBUG (row_major_equivalent vin) (row_major_equivalent vout)
                (reversed_axes (rank vin) amap) DIM
          \<and> extents_loop (row_major_equivalent vin) (row_major_equivalent vout)
                (reversed_axes (rank vin) amap) (rank vin) 0 ([], [], []) =
              Inr (rev ie, rev oe, rev fe)
          \<and> (\<forall>in_extents out_extents fft_extents howmany.
                get_extents NDEBUG vin vout amap DIM =
                  Inr (in_extents, out_extents, fft_extents, howmany) \<longrightarrow>
                in_extents = subvector (rev ie) DIM
                \<and> out_extents = subvector (rev oe) DIM
                \<and> fft_extents = subvector (rev fe) DIM))
       \<and> (array_layout vin = LayoutRight \<longrightarrow>
           (\<forall>in_extents out_extents fft_extents howmany.
                get_extents NDEBUG vin vout amap DIM =
                  Inr (in_extents, out_extents, fft_extents, howmany) \<longrightarrow>
                in_extents = subvector ie DIM
                \<and> out_extents = subvector oe DIM
                \<and> fft_extents = subvector fe DIM))"
proof -
  note l = extents_loop_InrD [OF assms(4)]
  have sl: "a = subvector (to_layout_right (array_layout vin) ie) DIM
      \<and> b = subvector (to_layout_right (array_layout vin) oe) DIM
      \<and> c = subvector (to_layout_right (array_layout vin) fe) DIM"
    if "get_extents NDEBUG vin vout amap DIM = Inr (a, b, c, h)" for a b c h
    using get_extents_InrD(4,5,6) [OF that]
    by (simp add: l(2,3,4) to_layout_right_map subvector_map)
  have left: "to_layout_right LayoutLeft xs = rev xs"
    and right: "to_layout_right LayoutRight xs = xs" for xs :: "cint list"
    by (simp_all add: to_layout_right_def)
  show ?thesis
  proof (intro conjI impI allI)
    assume "array_layout vin = LayoutLeft"
    then show "get_extents NDEBUG vin vout amap DIM =
        get_extents NDEBUG (row_major_equivalent vin) (row_major_equivalent vout)
          (reversed_axes (rank vin) amap) DIM"
      using assms(1,2,3) by (rule column_major_equivalence)
  next
    assume "array_layout vin = LayoutLeft"
    then show "extents_loop (row_major_equivalent vin) (row_major_equivalent vout)
        (reversed_axes (rank vin) amap) (rank vin) 0 ([], [], []) =
        Inr (rev ie, rev oe, rev fe)"
      using assms by (rule extents_loop_row_major_equivalent)
  next
    fix a b c h
    assume "array_layout vin = LayoutLeft" "get_extents NDEBUG vin vout amap DIM = Inr (a, b, c, h)"
    then show "a = subvector (rev ie) DIM" "b = subvector (rev oe) DIM"
      "c = subvector (rev fe) DIM"
      using sl [of a b c h] by (simp_all add: left)
  next
    fix a b c h
    assume "array_layout vin = LayoutRight" "get_extents NDEBUG vin vout amap DIM = Inr (a, b, c, h)"
    then show "a = subvector ie DIM" "b = subvector oe DIM" "c = subvector fe DIM"
      using sl [of a b c h] by (simp_all add: right)
  qed
qed

theorem column_major_as_row_major_witness:
  "get_extents False (View [4, 5] LayoutLeft Floating_point) (View [3, 5] LayoutLeft Complex)
     [0, 1] 1 = Inr ([4], [3], [4], 5)
   \<and> get_extents False (row_major_equivalent (View [4, 5] LayoutLeft Floating_point))
       (row_major_equivalent (View [3, 5] LayoutLeft Complex)) (reversed_axes 2 [0, 1]) 1 =
     Inr ([4], [3], [4], 5)
   \<and> extents_loop (row_major_equivalent (View [4, 5] LayoutLeft Floating_point))
       (row_major_equivalent (View [3, 5] LayoutLeft Complex)) (reversed_axes 2 [0, 1])
       2 0 ([], [], []) = Inr ([5, 4], [5, 3], [5, 4])
   \<and> get_extents False (View [4, 5] LayoutRight Floating_point) (View [4, 3] LayoutRight Complex)
     [0, 1] 1 = Inr (subvector [4, 5] 1, subvector [4, 3] 1, subvector [4, 5] 1, 4)"
proof -
  let ?vin = "View [4, 5] LayoutLeft Floating_point"
  let ?vout = "View [3, 5] LayoutLeft Complex"
  let ?rin = "View [4, 5] LayoutRight Floating_point"
  let ?rout = "View [4, 3] LayoutRight Complex"
  have r: "rank ?vin = 2" "rank ?vout = rank ?vin" "length [0, 1 :: nat] = rank ?vin"
    "\<forall>a\<in>set [0, 1 :: nat]. a < rank ?vin" "array_layout ?vin = LayoutLeft"
    by (simp_all add: View_def)
  have e: "extents_loop ?vin ?vout [0, 1] (rank ?vin) 0 ([], [], []) =
      Inr ([4, 5], [3, 5], [4, 5])"
    by (simp add: View_def model_defs)
  have g: "get_extents False ?vin ?vout [0, 1] 1 = Inr ([4], [3], [4], 5)"
    by (simp add: View_def model_defs)
  have r': "rank ?rin = 2" "rank ?rout = rank ?rin" "length [0, 1 :: nat] = rank ?rin"
    "\<forall>a\<in>set [0, 1 :: nat]. a < rank ?rin" "array_layout ?rin = LayoutRight"
    by (simp_all add: View_def)
  have e': "extents_loop ?rin ?rout [0, 1] (rank ?rin) 0 ([], [], []) =
      Inr ([4, 5], [4, 3], [4, 5])"
    by (simp add: View_def model_defs)
  have g': "get_extents False ?rin ?rout [0, 1] 1 = Inr ([5], [3], [5], 4)"
    by (simp add: View_def model_defs)
  note t = column_major_as_row_major [OF r(2,3,4) e, where NDEBUG = False and DIM = 1]
  note t' = column_major_as_row_major [OF r'(2,3,4) e', where NDEBUG = False and DIM = 1]
  from t r(5) have
    "get_extents False ?vin ?vout [0, 1] 1 =
      get_extents False (row_major_equivalent ?vin) (row_major_equivalent ?vout)
        (reversed_axes (rank ?vin) [0, 1]) 1"
    and "extents_loop (row_major_equivalent ?vin) (row_major_equivalent ?vout)
        (reversed_axes (rank ?vin) [0, 1]) (rank ?vin) 0 ([], [], []) =
      Inr (rev [4, 5], rev [3, 5], rev [4, 5])"
    by blast+
  moreover from t' r'(5) g' have "[5] = subvector [4, 5 :: cint] 1"
    "[3] = subvector [4, 3 :: cint] 1"
    by blast+
  ultimately show ?thesis using g g' by (simp add: r(1))
qed

section \<open>The returned extents are the trailing slices\<close>

text \<open>
  Claim C6. Whenever the call returns, each of the three returned vectors has length
  \<open>DIM\<close>, and its entry \<open>k\<close> is the entry \<open>rank - DIM + k\<close> of the corresponding
  full-length vector that the loop built, taken after the reversal for a column-major
  input view and as it is for a row-major one.
\<close>

theorem returned_extents_are_trailing_slices:
  assumes "get_extents NDEBUG vin vout amap DIM = Inr (in_extents, out_extents, fft_extents, howmany)"
  shows "\<exists>ie oe fe.
      extents_loop vin vout amap (rank vin) 0 ([], [], []) = Inr (ie, oe, fe)
      \<and> length ie = rank vin \<and> length oe = rank vin \<and> length fe = rank vin
      \<and> length in_extents = DIM \<and> length out_extents = DIM \<and> length fft_extents = DIM
      \<and> (\<forall>k<DIM.
            in_extents ! k =
              (if array_layout vin = LayoutLeft then rev ie else ie) ! (rank vin - DIM + k)
          \<and> out_extents ! k =
              (if array_layout vin = LayoutLeft then rev oe else oe) ! (rank vin - DIM + k)
          \<and> fft_extents ! k =
              (if array_layout vin = LayoutLeft then rev fe else fe) ! (rank vin - DIM + k))"
proof -
  note d = get_extents_InrD [OF assms]
  let ?xs = "to_layout_right (array_layout vin) (take (rank vin) amap)"
  have len: "length ?xs = rank vin"
    using d(3) by (simp add: length_to_layout_right)
  have sub: "length (subvector ?xs DIM) = DIM"
    using d(1) len by (simp add: length_subvector)
  have nth: "subvector ?xs DIM ! k = ?xs ! (rank vin - DIM + k)" if "k < DIM" for k
    using nth_subvector [of DIM ?xs k] d(1) len that by simp
  have pos: "rank vin - DIM + k < length ?xs" if "k < DIM" for k
    using d(1) len that by simp
  have el: "map f (subvector ?xs DIM) ! k =
      (if array_layout vin = LayoutLeft then rev (map f (take (rank vin) amap))
       else map f (take (rank vin) amap)) ! (rank vin - DIM + k)"
    if "k < DIM" for k and f :: "nat \<Rightarrow> cint"
  proof -
    have "map f (subvector ?xs DIM) ! k = f (?xs ! (rank vin - DIM + k))"
      using sub nth [OF that] that by simp
    also have "\<dots> = map f ?xs ! (rank vin - DIM + k)"
      using pos [OF that] by simp
    also have "map f ?xs =
      (if array_layout vin = LayoutLeft then rev (map f (take (rank vin) amap))
       else map f (take (rank vin) amap))"
      by (simp add: to_layout_right_def rev_map)
    finally show ?thesis .
  qed
  show ?thesis
    using d(3) sub el
    by (simp add: extents_loop_full d(4,5,6))
qed

theorem returned_extents_are_trailing_slices_witness:
  "get_extents False (View [2, 3, 4] LayoutRight Complex) (View [2, 3, 4] LayoutRight Complex)
     [0, 1, 2] 2 = Inr ([3, 4], [3, 4], [3, 4], 2)
   \<and> (\<exists>ie oe fe.
        extents_loop (View [2, 3, 4] LayoutRight Complex) (View [2, 3, 4] LayoutRight Complex)
          [0, 1, 2] 3 0 ([], [], []) = Inr (ie, oe, fe)
        \<and> length ie = 3 \<and> ie ! 1 = 3 \<and> ie ! 2 = 4)"
proof -
  have h: "get_extents False (View [2, 3, 4] LayoutRight Complex) (View [2, 3, 4] LayoutRight Complex)
     [0, 1, 2] 2 = Inr ([3, 4], [3, 4], [3, 4], 2)"
    by (simp add: View_def model_defs Let_def)
  have r: "rank (View [2, 3, 4] LayoutRight Complex) = 3"
    and l: "array_layout (View [2, 3, 4] LayoutRight Complex) = LayoutRight"
    by (simp_all add: View_def)
  from returned_extents_are_trailing_slices [OF h]
  obtain ie oe fe where
    e: "extents_loop (View [2, 3, 4] LayoutRight Complex) (View [2, 3, 4] LayoutRight Complex)
          [0, 1, 2] 3 0 ([], [], []) = Inr (ie, oe, fe)"
    and n: "length ie = 3"
    and k: "\<forall>k<2. [3, 4] ! k = ie ! (3 - 2 + k)"
    unfolding r l by auto
  from k [rule_format, of 0] k [rule_format, of 1] have "ie ! 1 = 3" "ie ! 2 = 4"
    by (simp_all add: numeral_2_eq_2)
  with h e n show ?thesis by blast
qed

section \<open>A positive batch count\<close>

text \<open>
  Claim C7, as amended. For every call that passes the static assertions, with an axis
  map at least as long as the rank, whose extents along the mapped axes are all at least 1
  and whose canonical extents have a product below \<open>2 ^ 31\<close> (so that every extent and
  every product is representable in \<open>int\<close>): \<open>fft_size\<close> is not zero, the division
  never traps, and whenever the call returns, \<open>howmany\<close> is at least 1 and no returned
  extent is negative.
\<close>

theorem batch_count_positive:
  assumes "DIM \<le> rank vin" "0 < DIM" "rank vin \<le> length amap"
    and "\<forall>i<rank vin. 1 \<le> extent vin (amap ! i) \<and> 1 \<le> extent vout (amap ! i)"
    and "prod_list (map (\<lambda>idx. unat (max (extent vin idx) (extent vout idx)))
           (take (rank vin) amap)) < 2 ^ 31"
  shows "accumulate (subvector (to_layout_right (array_layout vin)
           (map (\<lambda>idx. to_int (max (extent vin idx) (extent vout idx)))
              (take (rank vin) amap))) DIM) \<noteq> 0
    \<and> get_extents NDEBUG vin vout amap DIM \<noteq> Inl Division_by_zero
    \<and> get_extents NDEBUG vin vout amap DIM \<noteq> Inl Division_overflow
    \<and> (\<forall>in_extents out_extents fft_extents howmany.
          get_extents NDEBUG vin vout amap DIM =
            Inr (in_extents, out_extents, fft_extents, howmany) \<longrightarrow>
          1 \<le> sint howmany
          \<and> (\<forall>x\<in>set in_extents \<union> set out_extents \<union> set fft_extents. 0 \<le> sint x))"
proof -
  let ?xs = "take (rank vin) amap"
  let ?m = "\<lambda>idx. max (extent vin idx) (extent vout idx)"
  let ?ns = "map (\<lambda>idx. unat (?m idx)) ?xs"
  let ?fe = "map (\<lambda>idx. to_int (?m idx)) ?xs"
  let ?ws = "to_layout_right (array_layout vin) ?fe"
  have ge: "1 \<le> extent vin idx \<and> 1 \<le> extent vout idx" if "idx \<in> set ?xs" for idx
  proof -
    from that obtain i where "i < rank vin" "idx = amap ! i"
      using assms(3) by (auto simp add: in_set_conv_nth)
    with assms(4) show ?thesis by simp
  qed
  have m1: "1 \<le> unat (?m idx)" if "idx \<in> set ?xs" for idx
  proof -
    have "1 \<le> ?m idx" using ge [OF that] by (simp add: le_max_iff_disj)
    then show ?thesis by (simp add: word_le_nat_alt)
  qed
  have small: "?m idx < 2 ^ 31" if "idx \<in> set ?xs" for idx
  proof -
    have "unat (?m idx) \<in> set ?ns" using that by auto
    moreover have "\<forall>n\<in>set ?ns. 1 \<le> n" using m1 by auto
    ultimately have "unat (?m idx) \<le> prod_list ?ns" by (intro member_le_prod_list)
    with assms(5) have "unat (?m idx) < 2 ^ 31" by simp
    then show ?thesis by (rule word_less_2p31)
  qed
  have sm: "sint (to_int (?m idx)) = int (unat (?m idx))" if "idx \<in> set ?xs" for idx
    using to_int_small [OF small [OF that]] by simp
  have "1 \<le> sint (to_int (?m idx))" if "idx \<in> set ?xs" for idx
    using of_nat_mono [OF m1 [OF that], where ?'a = int] by (simp add: sm [OF that])
  then have pos: "\<forall>x\<in>set ?ws. 1 \<le> sint x"
    by (auto simp add: set_to_layout_right)
  have "map sint ?fe = map (\<lambda>idx. sint (to_int (?m idx))) ?xs"
    by (simp add: o_def)
  also have "\<dots> = map (\<lambda>idx. int (unat (?m idx))) ?xs"
    by (rule map_cong [OF refl]) (rule sm)
  finally have "prod_list (map sint ?fe) = int (prod_list ?ns)"
    by (simp only: prod_list_map_int)
  then have bound: "prod_list (map sint ?ws) < 2 ^ 31"
    using assms(5) by (simp add: prod_sint_to_layout_right)
  note b = positive_batch [OF pos bound, of DIM]
  have nz: "accumulate (subvector ?ws DIM) \<noteq> 0" by (rule b(1))
  have "sint (accumulate (subvector ?ws DIM)) \<noteq> sint (- 1 :: cint)"
    using b(2) by simp
  then have nm: "accumulate (subvector ?ws DIM) \<noteq> - 1" by auto
  have nd: "get_extents NDEBUG vin vout amap DIM \<noteq> Inl Division_by_zero"
    "get_extents NDEBUG vin vout amap DIM \<noteq> Inl Division_overflow"
    using nz nm check_real_input_no_division [of NDEBUG]
      check_real_output_no_division [of NDEBUG]
    by (auto simp add: get_extents_valid [OF assms(1,2,3)] Let_def int_div_def
        split: sum.splits if_splits)
  have ret: "1 \<le> sint h \<and> (\<forall>x\<in>set a \<union> set b \<union> set c. 0 \<le> sint x)"
    if "get_extents NDEBUG vin vout amap DIM = Inr (a, b, c, h)" for a b c h
  proof -
    note d = get_extents_InrD [OF that]
    let ?zs = "subvector (to_layout_right (array_layout vin) ?xs) DIM"
    have sub: "set ?zs \<subseteq> set ?xs"
      using set_subvector [of "to_layout_right (array_layout vin) ?xs" DIM]
      by (simp add: set_to_layout_right)
    have c: "c = subvector ?ws DIM"
      by (simp add: d(6) to_layout_right_map subvector_map)
    have h: "1 \<le> sint h"
      using b(3) by (simp add: d(8) c to_layout_right_map)
    have nn: "0 \<le> sint (to_int (extent vin idx)) \<and> 0 \<le> sint (to_int (extent vout idx))
        \<and> 0 \<le> sint (to_int (?m idx))" if "idx \<in> set ?zs" for idx
    proof -
      from that sub have x: "idx \<in> set ?xs" by blast
      have "extent vin idx \<le> ?m idx" "extent vout idx \<le> ?m idx" by simp_all
      with small [OF x] have i: "extent vin idx < 2 ^ 31" and o: "extent vout idx < 2 ^ 31"
        by (meson le_less_trans)+
      show ?thesis
        by (simp add: to_int_small [OF i] to_int_small [OF o] to_int_small [OF small [OF x]])
    qed
    have "\<forall>x\<in>set a \<union> set b \<union> set c. 0 \<le> sint x"
      using nn by (auto simp add: d(4,5,6))
    with h show ?thesis by simp
  qed
  from nz nd ret show ?thesis by blast
qed

theorem batch_count_positive_witness:
  "get_extents False (View [4, 5] LayoutRight Floating_point) (View [4, 3] LayoutRight Complex)
     [0, 1] 1 = Inr ([5], [3], [5], 4)
   \<and> get_extents False (View [4, 5] LayoutRight Floating_point) (View [4, 3] LayoutRight Complex)
     [0, 1] 1 \<noteq> Inl Division_by_zero
   \<and> 1 \<le> sint (4 :: cint)"
proof -
  let ?vin = "View [4, 5] LayoutRight Floating_point"
  let ?vout = "View [4, 3] LayoutRight Complex"
  have g: "get_extents False ?vin ?vout [0, 1] 1 = Inr ([5], [3], [5], 4)"
    by (simp add: View_def model_defs)
  have s: "1 \<le> rank ?vin" "0 < (1::nat)" "rank ?vin \<le> length [0, 1 :: nat]"
    by (simp_all add: View_def)
  have e: "\<forall>i<rank ?vin. 1 \<le> extent ?vin ([0, 1] ! i) \<and> 1 \<le> extent ?vout ([0, 1] ! i)"
    by (simp add: View_def less_Suc_eq)
  have p: "prod_list (map (\<lambda>idx. unat (max (extent ?vin idx) (extent ?vout idx)))
           (take (rank ?vin) [0, 1])) < 2 ^ 31"
    by (simp add: View_def)
  from batch_count_positive [OF s e p] g show ?thesis by blast
qed

text \<open>
  Without the bound the claim fails. Two complex views of shape \<open>(2 ^ 31, 1)\<close>,
  transformed along axis 1: all extents are at least 1, the extent \<open>2 ^ 31\<close> is stored
  as \<open>-2 ^ 31\<close>, no multiplication overflows, and the call returns
  \<open>howmany = -2147483648\<close>.
\<close>

theorem batch_count_positive_counterexample:
  "get_extents False (View [2147483648, 1] LayoutRight Complex)
     (View [2147483648, 1] LayoutRight Complex) [0, 1] 1 = Inr ([1], [1], [1], 2147483648)
   \<and> sint (2147483648 :: cint) = - 2147483648
   \<and> 1 \<le> (2147483648 :: size_t)
   \<and> \<not> 1 \<le> sint (2147483648 :: cint)"
  by (simp add: View_def model_defs)

section \<open>Real input with real output\<close>

text \<open>
  Claim C8, as amended. When the input and the output element types are both real, the
  call does not fall through: it fails with the type mismatch error of the first check,
  whose message says that the output should be complex, and returns no extents.
\<close>

theorem both_real_fails:
  assumes "DIM \<le> rank vin" "0 < DIM" "rank vin \<le> length amap"
    and "is_floating_point (non_const_value_type vin)"
    and "is_floating_point (non_const_value_type vout)"
  shows "get_extents NDEBUG vin vout amap DIM =
    Inl (Runtime_error ''If the input type is real, the output type should be complex'')"
  using assms by (simp add: real_input_needs_complex_output floating_point_not_complex)

theorem both_real_fails_witness:
  "get_extents False (View [16] LayoutLeft Floating_point) (View [16] LayoutLeft Floating_point)
     [0] 1 =
   Inl (Runtime_error ''If the input type is real, the output type should be complex'')"
  using both_real_fails
    [where NDEBUG = False and DIM = 1 and amap = "[0]"
      and vin = "View [16] LayoutLeft Floating_point"
      and vout = "View [16] LayoutLeft Floating_point"]
  by (simp add: View_def)

text \<open>
  The claim as stated, that the call returns as if the pairing were valid, fails for two
  real views of extent 8: the result is an error, not a tuple of extents.
\<close>

theorem both_real_counterexample:
  "get_extents False (View [8] LayoutRight Floating_point) (View [8] LayoutRight Floating_point)
     [0] 1 =
   Inl (Runtime_error ''If the input type is real, the output type should be complex'')"
  by (simp add: View_def model_defs)

section \<open>The end-to-end example\<close>

text \<open>
  Claim C9. A row-major real view of shape (4, 5), transformed along axis 1 into a complex
  view of shape (4, 3), gives \<open>in_extents = [5]\<close>, \<open>out_extents = [3]\<close>,
  \<open>fft_extents = [5]\<close> and \<open>howmany = 4\<close>, with and without \<open>NDEBUG\<close>. The axis
  map for axis 1 of a view of rank 2 is \<open>[0, 1]\<close>.
\<close>

theorem example_r2c_4x5:
  "get_map_axes 2 [1] = [0, 1]
   \<and> get_extents False (View [4, 5] LayoutRight Floating_point)
         (View [4, 3] LayoutRight Complex) (get_map_axes 2 [1]) 1 = Inr ([5], [3], [5], 4)
   \<and> get_extents True (View [4, 5] LayoutRight Floating_point)
         (View [4, 3] LayoutRight Complex) (get_map_axes 2 [1]) 1 = Inr ([5], [3], [5], 4)"
  by code_simp

section \<open>The canonical extent of the halved axis\<close>

text \<open>
  Claim C10, as amended. Let \<open>ie\<close>, \<open>oe\<close>, \<open>fe\<close> be the full-length vectors that the
  loop builds. If the extent \<open>n\<close> of the input view at the innermost position is at least
  1 and below \<open>2 ^ 31\<close>, and the extent of the output view there is \<open>n / 2 + 1\<close>, the
  canonical extent at that position is \<open>n\<close>, and so is the stored input extent; likewise
  with the real side on the output. The innermost position is \<open>rank - 1\<close> for a row-major
  and \<open>0\<close> for a column-major input view; whenever the call returns, the entries at
  that position are the last entries of the returned vectors.
\<close>

theorem innermost_fft_extent_is_real_extent:
  assumes "extents_loop vin vout amap (rank vin) 0 ([], [], []) = Inr (ie, oe, fe)"
    and "0 < rank vin"
    and "p = (if array_layout vin = LayoutLeft then 0 else rank vin - 1)"
  shows "(1 \<le> extent vin (amap ! p) \<and> extent vin (amap ! p) < 2 ^ 31
          \<and> unat (extent vout (amap ! p)) = unat (extent vin (amap ! p)) div 2 + 1 \<longrightarrow>
          sint (fe ! p) = uint (extent vin (amap ! p))
          \<and> sint (ie ! p) = uint (extent vin (amap ! p)))
       \<and> (1 \<le> extent vout (amap ! p) \<and> extent vout (amap ! p) < 2 ^ 31
          \<and> unat (extent vin (amap ! p)) = unat (extent vout (amap ! p)) div 2 + 1 \<longrightarrow>
          sint (fe ! p) = uint (extent vout (amap ! p))
          \<and> sint (oe ! p) = uint (extent vout (amap ! p)))
       \<and> (\<forall>in_extents out_extents fft_extents howmany.
            get_extents NDEBUG vin vout amap DIM =
              Inr (in_extents, out_extents, fft_extents, howmany) \<longrightarrow>
            last in_extents = ie ! p
            \<and> last out_extents = oe ! p
            \<and> last fft_extents = fe ! p)"
proof -
  note l = extents_loop_InrD [OF assms(1)]
  have p: "p = inner_most_axis vin" by (simp add: assms(3) inner_most_axis_def)
  have ax: "p < rank vin" unfolding p using assms(2) by (rule inner_most_axis_less)
  then have nth: "take (rank vin) amap ! p = amap ! p" by simp
  have len: "length (take (rank vin) amap) = rank vin" using l(1) by simp
  have i: "ie ! p = to_int (extent vin (amap ! p))"
    and o: "oe ! p = to_int (extent vout (amap ! p))"
    and f: "fe ! p = to_int (max (extent vin (amap ! p)) (extent vout (amap ! p)))"
    using ax len nth by (simp_all add: l(2,3,4))
  have larger: "max x y = x" if "1 \<le> x" "unat y = unat x div 2 + 1" for x y :: size_t
  proof -
    from that(1) have "1 \<le> unat x" by (simp add: word_le_nat_alt)
    with that(2) have "unat y \<le> unat x" by simp
    then have "y \<le> x" by (simp add: word_le_nat_alt)
    then show ?thesis by (simp add: max_def)
  qed
  have r2c: "sint (fe ! p) = uint (extent vin (amap ! p))
      \<and> sint (ie ! p) = uint (extent vin (amap ! p))"
    if "1 \<le> extent vin (amap ! p)" "extent vin (amap ! p) < 2 ^ 31"
      and "unat (extent vout (amap ! p)) = unat (extent vin (amap ! p)) div 2 + 1"
    using larger [OF that(1,3)] to_int_small [OF that(2)] by (simp add: i f)
  have c2r: "sint (fe ! p) = uint (extent vout (amap ! p))
      \<and> sint (oe ! p) = uint (extent vout (amap ! p))"
    if "1 \<le> extent vout (amap ! p)" "extent vout (amap ! p) < 2 ^ 31"
      and "unat (extent vin (amap ! p)) = unat (extent vout (amap ! p)) div 2 + 1"
    using larger [OF that(1,3)] to_int_small [OF that(2)] by (simp add: o f max.commute)
  have ret: "last a = ie ! p \<and> last b = oe ! p \<and> last c = fe ! p"
    if "get_extents NDEBUG vin vout amap DIM = Inr (a, b, c, h)" for a b c h
  proof -
    note d = get_extents_InrD [OF that]
    let ?zs = "subvector (to_layout_right (array_layout vin) (take (rank vin) amap)) DIM"
    have "length ?zs = DIM"
      using d(1) len by (simp add: length_subvector length_to_layout_right)
    then have ne: "?zs \<noteq> []" using d(2) by auto
    have "last ?zs = take (rank vin) amap ! p"
      using last_subvector_to_layout_right [of DIM "take (rank vin) amap" "array_layout vin"]
        d(1,2) len by (simp add: assms(3))
    then have "last ?zs = amap ! p" using nth by simp
    then show ?thesis using ne by (simp add: d(4,5,6) last_map i o f)
  qed
  from r2c c2r ret show ?thesis by blast
qed

theorem innermost_fft_extent_is_real_extent_witness:
  "extents_loop (View [4, 5] LayoutRight Floating_point) (View [4, 3] LayoutRight Complex)
     [0, 1] 2 0 ([], [], []) = Inr ([4, 5], [4, 3], [4, 5])
   \<and> get_extents False (View [4, 5] LayoutRight Floating_point)
       (View [4, 3] LayoutRight Complex) [0, 1] 1 = Inr ([5], [3], [5], 4)
   \<and> sint ([4, 5 :: cint] ! 1) = uint (5 :: size_t)
   \<and> last [5 :: cint] = [4, 5] ! 1
   \<and> extents_loop (View [4, 3] LayoutRight Complex) (View [4, 5] LayoutRight Floating_point)
     [0, 1] 2 0 ([], [], []) = Inr ([4, 3], [4, 5], [4, 5])
   \<and> sint ([4, 5 :: cint] ! 1) = uint (5 :: size_t)"
proof -
  let ?re = "View [4, 5] LayoutRight Floating_point"
  let ?co = "View [4, 3] LayoutRight Complex"
  have r: "rank ?re = 2" "rank ?co = 2" by (simp_all add: View_def)
  have p: "1 = (if array_layout ?re = LayoutLeft then 0 else rank ?re - 1)"
    "1 = (if array_layout ?co = LayoutLeft then 0 else rank ?co - 1)"
    by (simp_all add: View_def)
  have x: "extent ?re ([0, 1] ! 1) = 5" "extent ?co ([0, 1] ! 1) = 3"
    by (simp_all add: View_def)
  have e: "extents_loop ?re ?co [0, 1] (rank ?re) 0 ([], [], []) =
      Inr ([4, 5], [4, 3], [4, 5])"
    by (simp add: View_def model_defs)
  have e': "extents_loop ?co ?re [0, 1] (rank ?co) 0 ([], [], []) =
      Inr ([4, 3], [4, 5], [4, 5])"
    by (simp add: View_def model_defs)
  have g: "get_extents False ?re ?co [0, 1] 1 = Inr ([5], [3], [5], 4)"
    by (simp add: View_def model_defs)
  have pos: "0 < rank ?re" "0 < rank ?co" by (simp_all add: r)
  note t = innermost_fft_extent_is_real_extent
    [OF e pos(1) p(1), where NDEBUG = False and DIM = 1, unfolded x]
  note t' = innermost_fft_extent_is_real_extent
    [OF e' pos(2) p(2), where NDEBUG = False and DIM = 1, unfolded x]
  have rel: "1 \<le> (5 :: size_t) \<and> (5 :: size_t) < 2 ^ 31
      \<and> unat (3 :: size_t) = unat (5 :: size_t) div 2 + 1"
    by simp
  from t rel have "sint ([4, 5 :: cint] ! 1) = uint (5 :: size_t)" by blast
  moreover from t g have "last [5 :: cint] = [4, 5] ! 1" by blast
  moreover from t' rel have "sint ([4, 5 :: cint] ! 1) = uint (5 :: size_t)" by blast
  ultimately show ?thesis using e e' g unfolding r by blast
qed

text \<open>
  Without the bound the claim fails, since the canonical extent is stored as an
  \<open>int\<close>. A real view of extent \<open>n = 2 ^ 33 - 4\<close> with a complex view of extent
  \<open>2 ^ 32 - 1\<close>, which is \<open>n / 2 + 1\<close>: the stored extents are \<open>-4\<close> and \<open>-1\<close>, the
  assertion holds, the call returns, and the canonical extent is \<open>-4\<close>, not \<open>n\<close>.
\<close>

theorem innermost_fft_extent_is_real_extent_counterexample:
  "get_extents False (View [8589934588] LayoutRight Floating_point)
     (View [4294967295] LayoutRight Complex) [0] 1 =
     Inr ([4294967292], [4294967295], [4294967292], 1)
   \<and> 1 \<le> (8589934588 :: size_t)
   \<and> unat (4294967295 :: size_t) = unat (8589934588 :: size_t) div 2 + 1
   \<and> sint (4294967292 :: cint) = - 4
   \<and> sint (4294967292 :: cint) \<noteq> uint (8589934588 :: size_t)"
  by (simp add: View_def model_defs)

end
